theory Spec2Isabelle
  imports Main
begin

section \<open>Python values built by \<open>scripts/generate-assets.py\<close>\<close>

text \<open>
  The script builds two nested literals out of \<open>str\<close>, \<open>int\<close>, \<open>list\<close> and \<open>dict\<close>.
  A Python \<open>dict\<close> keeps its keys in insertion order and \<open>json.dump\<close> emits them in that
  order, so a dict is an association list.
\<close>

datatype json =
    JStr string
  | JInt int
  | JArr "json list"
  | JObj "(string \<times> json) list"

definition dishonesty_matrix :: json where
  "dishonesty_matrix = JObj [
     (''version'', JStr ''1.0''),
     (''contradictions'', JObj [
        (''weight'', JInt 3),
        (''examples'', JArr [JStr ''Opposing statements vs evidence'']),
        (''patterns'', JArr [
           JStr ''no deal.*invoice'',
           JStr ''denied.*admitted'',
           JStr ''refused.*accepted'',
           JStr ''never.*always''])]),
     (''omissions'', JObj [
        (''weight'', JInt 2),
        (''examples'', JArr [JStr ''Cropped screenshots'']),
        (''patterns'', JArr [
           JStr ''selective.*edit'',
           JStr ''missing.*context'',
           JStr ''cropped.*screenshot''])]),
     (''manipulations'', JObj [
        (''weight'', JInt 3),
        (''examples'', JArr [JStr ''Altered documents'']),
        (''patterns'', JArr [
           JStr ''modified.*original'',
           JStr ''altered.*date''])])]"

definition extraction_protocol :: json where
  "extraction_protocol = JObj [
     (''version'', JStr ''1.0''),
     (''step1_keywords'', JArr [
        JStr ''admin'', JStr ''deny'', JStr ''forged'', JStr ''access'', JStr ''delete'',
        JStr ''refuse'', JStr ''invoice'', JStr ''profit'', JStr ''transfer'', JStr ''payment'']),
     (''step2_tags'', JArr [
        JStr ''#Cybercrime'', JStr ''#Fraud'', JStr ''#Oppression'', JStr ''#FiduciaryBreach'']),
     (''step3_scoring'', JObj [
        (''low'', JObj [(''weight'', JInt 1), (''color'', JStr ''#4CAF50'')]),
        (''medium'', JObj [(''weight'', JInt 2), (''color'', JStr ''#FF9800'')]),
        (''high'', JObj [(''weight'', JInt 3), (''color'', JStr ''#F44336'')])])]"

section \<open>\<open>json.dump(obj, f, indent=2)\<close>\<close>

text \<open>
  The encoder of the standard library with its defaults (\<open>ensure_ascii=True\<close>, separators
  \<open>","\<close> and \<open>": "\<close> once an indent is given). Characters are code points below 256.
\<close>

definition hexdigit :: "nat \<Rightarrow> char" where
  "hexdigit n = (if n < 10 then char_of (48 + n) else char_of (87 + n))"

definition escape_char :: "char \<Rightarrow> string" where
  "escape_char c =
     (if c = CHR 0x5C then [CHR 0x5C, CHR 0x5C]
      else if c = CHR 0x22 then [CHR 0x5C, CHR 0x22]
      else if c = CHR 0x08 then [CHR 0x5C, CHR ''b'']
      else if c = CHR 0x0C then [CHR 0x5C, CHR ''f'']
      else if c = CHR 0x0A then [CHR 0x5C, CHR ''n'']
      else if c = CHR 0x0D then [CHR 0x5C, CHR ''r'']
      else if c = CHR 0x09 then [CHR 0x5C, CHR ''t'']
      else if 32 \<le> (of_char c :: nat) \<and> (of_char c :: nat) \<le> 126 then [c]
      else [CHR 0x5C, CHR ''u'', CHR ''0'', CHR ''0'',
            hexdigit ((of_char c :: nat) div 16), hexdigit ((of_char c :: nat) mod 16)])"

definition encode_basestring_ascii :: "string \<Rightarrow> string" where
  "encode_basestring_ascii s = [CHR 0x22] @ concat (map escape_char s) @ [CHR 0x22]"

fun natstr :: "nat \<Rightarrow> string" where
  "natstr n = (if n < 10 then [char_of (48 + n)]
               else natstr (n div 10) @ [char_of (48 + n mod 10)])"

definition intstr :: "int \<Rightarrow> string" where
  "intstr i = (if i < 0 then CHR ''-'' # natstr (nat (- i)) else natstr (nat i))"

definition newline_indent :: "nat \<Rightarrow> nat \<Rightarrow> string" where
  "newline_indent ind level = CHR 0x0A # replicate (ind * level) CHR '' ''"

fun join :: "string \<Rightarrow> string list \<Rightarrow> string" where
  "join sep [] = []"
| "join sep [x] = x"
| "join sep (x # y # ys) = x @ sep @ join sep (y # ys)"

fun iterencode :: "nat \<Rightarrow> nat \<Rightarrow> json \<Rightarrow> string"
  and iterencode_list :: "nat \<Rightarrow> nat \<Rightarrow> json list \<Rightarrow> string list"
  and iterencode_dict :: "nat \<Rightarrow> nat \<Rightarrow> (string \<times> json) list \<Rightarrow> string list"
where
  "iterencode ind level (JStr s) = encode_basestring_ascii s"
| "iterencode ind level (JInt i) = intstr i"
| "iterencode ind level (JArr xs) =
     (if xs = [] then ''[]''
      else ''['' @ newline_indent ind (Suc level)
           @ join ('','' @ newline_indent ind (Suc level)) (iterencode_list ind (Suc level) xs)
           @ newline_indent ind level @ '']'')"
| "iterencode ind level (JObj kvs) =
     (if kvs = [] then ''{}''
      else ''{'' @ newline_indent ind (Suc level)
           @ join ('','' @ newline_indent ind (Suc level)) (iterencode_dict ind (Suc level) kvs)
           @ newline_indent ind level @ ''}'')"
| "iterencode_list ind level [] = []"
| "iterencode_list ind level (x # xs) = iterencode ind level x # iterencode_list ind level xs"
| "iterencode_dict ind level [] = []"
| "iterencode_dict ind level ((k, v) # kvs) =
     (encode_basestring_ascii k @ '': '' @ iterencode ind level v)
       # iterencode_dict ind level kvs"

definition json_dumps :: "nat \<Rightarrow> json \<Rightarrow> string" where
  "json_dumps ind obj = iterencode ind 0 obj"

section \<open>Reading the files back\<close>

text \<open>
  The consumer's side: a reader for the JSON grammar of RFC 8259 restricted to the values
  the generator can produce (objects, arrays, strings, integers). Everything else,
  and any malformed text, is \<open>None\<close>. Members are returned in the order in which they
  appear in the text. The recursion is bounded by a fuel argument.
\<close>

definition is_ws :: "char \<Rightarrow> bool" where
  "is_ws c = (c = CHR '' '' \<or> c = CHR 0x09 \<or> c = CHR 0x0A \<or> c = CHR 0x0D)"

definition skip_ws :: "string \<Rightarrow> string" where
  "skip_ws s = dropWhile is_ws s"

definition is_digit :: "char \<Rightarrow> bool" where
  "is_digit c = (48 \<le> (of_char c :: nat) \<and> (of_char c :: nat) \<le> 57)"

definition hexval :: "char \<Rightarrow> nat option" where
  "hexval c =
     (let n = (of_char c :: nat) in
      if 48 \<le> n \<and> n \<le> 57 then Some (n - 48)
      else if 97 \<le> n \<and> n \<le> 102 then Some (n - 87)
      else if 65 \<le> n \<and> n \<le> 70 then Some (n - 55)
      else None)"

definition unescape :: "char \<Rightarrow> char option" where
  "unescape e =
     (if e = CHR 0x22 then Some (CHR 0x22)
      else if e = CHR 0x5C then Some (CHR 0x5C)
      else if e = CHR ''/'' then Some (CHR ''/'')
      else if e = CHR ''b'' then Some (CHR 0x08)
      else if e = CHR ''f'' then Some (CHR 0x0C)
      else if e = CHR ''n'' then Some (CHR 0x0A)
      else if e = CHR ''r'' then Some (CHR 0x0D)
      else if e = CHR ''t'' then Some (CHR 0x09)
      else None)"

definition unicode_escape :: "char \<Rightarrow> char \<Rightarrow> char \<Rightarrow> char \<Rightarrow> char option" where
  "unicode_escape a b c d =
     (case (hexval a, hexval b, hexval c, hexval d) of
        (Some x3, Some x2, Some x1, Some x0) \<Rightarrow>
          (if x3 = 0 \<and> x2 = 0 then Some (char_of (16 * x1 + x0)) else None)
      | _ \<Rightarrow> None)"

fun scan_string :: "string \<Rightarrow> (string \<times> string) option" where
  "scan_string [] = None"
| "scan_string (c # cs) =
     (if c = CHR 0x22 then Some ([], cs)
      else if c = CHR 0x5C then
        (case cs of
           [] \<Rightarrow> None
         | e # rest \<Rightarrow>
             (if e = CHR ''u'' then
                (case rest of
                   a # b # c2 # d # rest' \<Rightarrow>
                     (case unicode_escape a b c2 d of
                        None \<Rightarrow> None
                      | Some ch \<Rightarrow>
                          (case scan_string rest' of
                             None \<Rightarrow> None
                           | Some (s, r) \<Rightarrow> Some (ch # s, r)))
                 | _ \<Rightarrow> None)
              else
                (case unescape e of
                   None \<Rightarrow> None
                 | Some ch \<Rightarrow>
                     (case scan_string rest of
                        None \<Rightarrow> None
                      | Some (s, r) \<Rightarrow> Some (ch # s, r)))))
      else if (of_char c :: nat) < 32 then None
      else (case scan_string cs of
              None \<Rightarrow> None
            | Some (s, r) \<Rightarrow> Some (c # s, r)))"

definition digits_value :: "string \<Rightarrow> nat" where
  "digits_value ds = foldl (\<lambda>acc c. 10 * acc + ((of_char c :: nat) - 48)) 0 ds"

definition scan_nat :: "string \<Rightarrow> (nat \<times> string) option" where
  "scan_nat s =
     (let ds = takeWhile is_digit s; r = dropWhile is_digit s in
      if ds = [] then None
      else if 1 < length ds \<and> hd ds = CHR ''0'' then None
      else (case r of
              [] \<Rightarrow> Some (digits_value ds, r)
            | c # _ \<Rightarrow> if c = CHR ''.'' \<or> c = CHR ''e'' \<or> c = CHR ''E'' then None
                       else Some (digits_value ds, r)))"

definition scan_int :: "string \<Rightarrow> (int \<times> string) option" where
  "scan_int s =
     (case s of
        [] \<Rightarrow> None
      | c # cs \<Rightarrow>
          if c = CHR ''-'' then map_option (\<lambda>(n, r). (- int n, r)) (scan_nat cs)
          else map_option (\<lambda>(n, r). (int n, r)) (scan_nat s))"

fun parse_value :: "nat \<Rightarrow> string \<Rightarrow> (json \<times> string) option"
  and parse_elements :: "nat \<Rightarrow> string \<Rightarrow> (json list \<times> string) option"
  and parse_members :: "nat \<Rightarrow> string \<Rightarrow> ((string \<times> json) list \<times> string) option"
where
  "parse_value 0 s = None"
| "parse_value (Suc n) s =
     (case skip_ws s of
        [] \<Rightarrow> None
      | c # cs \<Rightarrow>
          if c = CHR 0x22 then
            (case scan_string cs of
               None \<Rightarrow> None
             | Some (str, r) \<Rightarrow> Some (JStr str, r))
          else if c = CHR ''['' then
            (case skip_ws cs of
               [] \<Rightarrow> None
             | d # ds \<Rightarrow>
                 if d = CHR '']'' then Some (JArr [], ds)
                 else (case parse_elements n cs of
                         None \<Rightarrow> None
                       | Some (vs, r) \<Rightarrow> Some (JArr vs, r)))
          else if c = CHR ''{'' then
            (case skip_ws cs of
               [] \<Rightarrow> None
             | d # ds \<Rightarrow>
                 if d = CHR ''}'' then Some (JObj [], ds)
                 else (case parse_members n cs of
                         None \<Rightarrow> None
                       | Some (kvs, r) \<Rightarrow> Some (JObj kvs, r)))
          else
            (case scan_int (c # cs) of
               None \<Rightarrow> None
             | Some (i, r) \<Rightarrow> Some (JInt i, r)))"
| "parse_elements 0 s = None"
| "parse_elements (Suc n) s =
     (case parse_value n s of
        None \<Rightarrow> None
      | Some (v, r) \<Rightarrow>
          (case skip_ws r of
             [] \<Rightarrow> None
           | d # ds \<Rightarrow>
               if d = CHR '','' then
                 (case parse_elements n ds of
                    None \<Rightarrow> None
                  | Some (vs, r') \<Rightarrow> Some (v # vs, r'))
               else if d = CHR '']'' then Some ([v], ds)
               else None))"
| "parse_members 0 s = None"
| "parse_members (Suc n) s =
     (case skip_ws s of
        [] \<Rightarrow> None
      | q # qs \<Rightarrow>
          if q \<noteq> CHR 0x22 then None
          else
            (case scan_string qs of
               None \<Rightarrow> None
             | Some (k, r0) \<Rightarrow>
                 (case skip_ws r0 of
                    [] \<Rightarrow> None
                  | col # r1 \<Rightarrow>
                      if col \<noteq> CHR '':'' then None
                      else
                        (case parse_value n r1 of
                           None \<Rightarrow> None
                         | Some (v, r) \<Rightarrow>
                             (case skip_ws r of
                                [] \<Rightarrow> None
                              | d # ds \<Rightarrow>
                                  if d = CHR '','' then
                                    (case parse_members n ds of
                                       None \<Rightarrow> None
                                     | Some (kvs, r') \<Rightarrow> Some ((k, v) # kvs, r'))
                                  else if d = CHR ''}'' then Some ([(k, v)], ds)
                                  else None)))))"

definition json_loads :: "string \<Rightarrow> json option" where
  "json_loads s =
     (case parse_value (2 * length s + 2) s of
        None \<Rightarrow> None
      | Some (v, r) \<Rightarrow> if skip_ws r = [] then Some v else None)"

section \<open>The filesystem and the console\<close>

text \<open>
  The script runs against the current directory. A path is the list of its components
  below that directory (\<open>[]\<close> is the directory itself). A node is a directory or a regular
  file; its flag says whether the process may write to it. Only write permission is
  modelled: no symbolic links, no hard links, no search permission. The umask is one
  flag, \<open>creates_writable\<close>: whether what the process creates gets the owner's write bit.
  The free space of the disk is counted in bytes; everything the script writes to the
  files is ASCII, one byte per character, and the platform is taken to be POSIX, where
  text mode writes a newline as one byte. The console is one flag, \<open>stdout_unicode\<close>:
  whether the encoding of standard output can represent characters beyond ASCII.
\<close>

type_synonym path = "string list"

datatype node = Dir bool | File bool string

datatype error =
    FileNotFoundError
  | FileExistsError
  | NotADirectoryError
  | IsADirectoryError
  | PermissionError
  | NoSpaceError
  | UnicodeEncodeError

record world =
  nodes :: "path \<Rightarrow> node option"
  free :: nat
  stdout :: "string list"
  creates_writable :: bool
  stdout_unicode :: bool

type_synonym result = "(error \<times> world) + world"

text \<open>
  Path resolution: \<open>walk fs cur cs\<close> descends from \<open>cur\<close> through the components \<open>cs\<close>
  and returns the error of the first component that is missing or is not a directory.
\<close>

fun walk :: "(path \<Rightarrow> node option) \<Rightarrow> path \<Rightarrow> string list \<Rightarrow> error option" where
  "walk fs cur [] =
     (case fs cur of
        None \<Rightarrow> Some FileNotFoundError
      | Some (File _ _) \<Rightarrow> Some NotADirectoryError
      | Some (Dir _) \<Rightarrow> None)"
| "walk fs cur (c # cs) =
     (case fs cur of
        None \<Rightarrow> Some FileNotFoundError
      | Some (File _ _) \<Rightarrow> Some NotADirectoryError
      | Some (Dir _) \<Rightarrow> walk fs (cur @ [c]) cs)"

definition is_dir :: "world \<Rightarrow> path \<Rightarrow> bool" where
  "is_dir w p = (walk (nodes w) [] p = None)"

definition parent :: "path \<Rightarrow> path" where
  "parent p = butlast p"

text \<open>
  \<open>os.mkdir(p)\<close>: one directory, whose parent must exist and be writable; the new
  directory is writable when the umask allows it.
\<close>

definition os_mkdir :: "path \<Rightarrow> world \<Rightarrow> result" where
  "os_mkdir p w =
     (case walk (nodes w) [] (parent p) of
        Some e \<Rightarrow> Inl (e, w)
      | None \<Rightarrow>
          (case nodes w p of
             Some _ \<Rightarrow> Inl (FileExistsError, w)
           | None \<Rightarrow>
               (case nodes w (parent p) of
                  Some (Dir True) \<Rightarrow>
                    Inr (w\<lparr>nodes := (nodes w)(p \<mapsto> Dir (creates_writable w))\<rparr>)
                | _ \<Rightarrow> Inl (PermissionError, w))))"

text \<open>
  \<open>Path.mkdir(parents, exist_ok)\<close> of \<open>pathlib\<close>: try \<open>os.mkdir\<close>; on
  \<open>FileNotFoundError\<close> create the parent with \<open>parents=True, exist_ok=True\<close> and try once
  more without \<open>parents\<close>; any other \<open>OSError\<close> is swallowed when \<open>exist_ok\<close> is set and
  the path is a directory.
\<close>

function pathlib_mkdir :: "bool \<Rightarrow> bool \<Rightarrow> path \<Rightarrow> world \<Rightarrow> result" where
  "pathlib_mkdir parents exist_ok p w =
     (case os_mkdir p w of
        Inr w' \<Rightarrow> Inr w'
      | Inl (e, w') \<Rightarrow>
          if e = FileNotFoundError then
            (if \<not> parents \<or> parent p = p then Inl (e, w')
             else
               (case pathlib_mkdir True True (parent p) w' of
                  Inl x \<Rightarrow> Inl x
                | Inr w1 \<Rightarrow> pathlib_mkdir False exist_ok p w1))
          else if \<not> exist_ok \<or> \<not> is_dir w' p then Inl (e, w')
          else Inr w')"
  by pat_completeness auto
termination
  by (relation "measure (\<lambda>(parents, exist_ok, p, w). 2 * length p + (if parents then 1 else 0))")
     (auto simp: parent_def, case_tac p, auto)

declare pathlib_mkdir.simps [simp del]

text \<open>
  \<open>open(p, "w")\<close> creates the file or truncates it; the bytes are written when the
  \<open>with\<close> block closes the file. A write that does not fit leaves what did fit. A file
  that the call creates can be written through the handle whatever mode the umask gave it.
\<close>

definition open_w :: "path \<Rightarrow> world \<Rightarrow> result" where
  "open_w p w =
     (case walk (nodes w) [] (parent p) of
        Some e \<Rightarrow> Inl (e, w)
      | None \<Rightarrow>
          (case nodes w p of
             Some (Dir _) \<Rightarrow> Inl (IsADirectoryError, w)
           | Some (File wr old) \<Rightarrow>
               if wr then Inr (w\<lparr>nodes := (nodes w)(p \<mapsto> File wr []),
                                 free := free w + length old\<rparr>)
               else Inl (PermissionError, w)
           | None \<Rightarrow>
               (case nodes w (parent p) of
                  Some (Dir True) \<Rightarrow>
                    Inr (w\<lparr>nodes := (nodes w)(p \<mapsto> File (creates_writable w) [])\<rparr>)
                | _ \<Rightarrow> Inl (PermissionError, w))))"

definition write_close :: "path \<Rightarrow> string \<Rightarrow> world \<Rightarrow> result" where
  "write_close p data w =
     (let wr = (case nodes w p of Some (File b _) \<Rightarrow> b | _ \<Rightarrow> True) in
      if length data \<le> free w
      then Inr (w\<lparr>nodes := (nodes w)(p \<mapsto> File wr data), free := free w - length data\<rparr>)
      else Inl (NoSpaceError,
                w\<lparr>nodes := (nodes w)(p \<mapsto> File wr (take (free w) data)), free := 0\<rparr>))"

definition dump_to_file :: "json \<Rightarrow> path \<Rightarrow> world \<Rightarrow> result" where
  "dump_to_file obj p w =
     (case open_w p w of
        Inl x \<Rightarrow> Inl x
      | Inr w1 \<Rightarrow> write_close p (json_dumps 2 obj) w1)"

text \<open>
  \<open>print(line)\<close> encodes the text for standard output first: a character beyond ASCII
  (a byte of 128 or more in a string of the model) raises when the console cannot
  represent it, and nothing is written.
\<close>

definition print :: "string \<Rightarrow> world \<Rightarrow> result" where
  "print line w =
     (if list_ex (\<lambda>c. 128 \<le> (of_char c :: nat)) line \<and> \<not> stdout_unicode w
      then Inl (UnicodeEncodeError, w)
      else Inr (w\<lparr>stdout := stdout w @ [line]\<rparr>))"

section \<open>The script\<close>

definition assets_dir :: path where
  "assets_dir = [''app'', ''src'', ''main'', ''assets'', ''rules'']"

definition str_path :: "path \<Rightarrow> string" where
  "str_path p = join ''/'' p"

definition check_mark :: string where
  "check_mark = [CHR 0xE2, CHR 0x9C, CHR 0x85]"

definition matrix_path :: path where
  "matrix_path = assets_dir @ [''dishonesty_matrix.json'']"

definition protocol_path :: path where
  "protocol_path = assets_dir @ [''extraction_protocol.json'']"

text \<open>The three lines of acknowledgment, as the f-strings build them.\<close>

definition created_msg :: "string \<Rightarrow> string" where
  "created_msg name = check_mark @ '' Created: '' @ str_path assets_dir @ ''/'' @ name"

definition success_msg :: string where
  "success_msg = CHR 0x0A # check_mark @ '' Rule assets generated successfully!''"

definition create_rule_assets :: "world \<Rightarrow> result" where
  "create_rule_assets w =
     (case pathlib_mkdir True True assets_dir w of
        Inl x \<Rightarrow> Inl x
      | Inr w1 \<Rightarrow>
          (case dump_to_file dishonesty_matrix matrix_path w1 of
             Inl x \<Rightarrow> Inl x
           | Inr w2 \<Rightarrow>
               (case print (created_msg ''dishonesty_matrix.json'') w2 of
                  Inl x \<Rightarrow> Inl x
                | Inr w3 \<Rightarrow>
                    (case dump_to_file extraction_protocol protocol_path w3 of
                       Inl x \<Rightarrow> Inl x
                     | Inr w4 \<Rightarrow>
                         (case print (created_msg ''extraction_protocol.json'') w4 of
                            Inl x \<Rightarrow> Inl x
                          | Inr w5 \<Rightarrow> print success_msg w5)))))"

text \<open>
  The entry point calls the function once. An exception that nothing catches ends the
  interpreter with status 1; a normal return ends it with status 0.
\<close>

definition main :: "world \<Rightarrow> result" where
  "main w = create_rule_assets w"

definition exit_status :: "result \<Rightarrow> nat" where
  "exit_status r = (case r of Inl _ \<Rightarrow> 1 | Inr _ \<Rightarrow> 0)"

definition final_world :: "result \<Rightarrow> world" where
  "final_world r = (case r of Inl (e, w) \<Rightarrow> w | Inr w \<Rightarrow> w)"

section \<open>Vocabulary of the specification\<close>

text \<open>
  The remaining definitions are not code of the script: they say what the specification's
  words mean on the model, so that its sentences can be stated.
\<close>

subsection \<open>Shape of the two documents\<close>

definition keys :: "json \<Rightarrow> string list" where
  "keys v = (case v of JObj kvs \<Rightarrow> map fst kvs | _ \<Rightarrow> [])"

definition get :: "string \<Rightarrow> json \<Rightarrow> json option" where
  "get k v = (case v of JObj kvs \<Rightarrow> map_of kvs k | _ \<Rightarrow> None)"

fun get_path :: "string list \<Rightarrow> json \<Rightarrow> json option" where
  "get_path [] v = Some v"
| "get_path (k # ks) v = (case get k v of None \<Rightarrow> None | Some v' \<Rightarrow> get_path ks v')"

definition is_obj :: "json \<Rightarrow> bool" where
  "is_obj v = (case v of JObj _ \<Rightarrow> True | _ \<Rightarrow> False)"

definition is_str :: "json \<Rightarrow> bool" where
  "is_str v = (case v of JStr _ \<Rightarrow> True | _ \<Rightarrow> False)"

definition is_int :: "json \<Rightarrow> bool" where
  "is_int v = (case v of JInt _ \<Rightarrow> True | _ \<Rightarrow> False)"

definition is_str_seq :: "json \<Rightarrow> bool" where
  "is_str_seq v = (case v of JArr xs \<Rightarrow> list_all is_str xs | _ \<Rightarrow> False)"

definition has :: "string \<Rightarrow> (json \<Rightarrow> bool) \<Rightarrow> json \<Rightarrow> bool" where
  "has k P v = (case get k v of None \<Rightarrow> False | Some x \<Rightarrow> P x)"

text \<open>A category of the DishonestyMatrix: \<open>weight\<close>, \<open>examples\<close>, \<open>patterns\<close>.\<close>

definition is_category :: "json \<Rightarrow> bool" where
  "is_category v =
     (is_obj v \<and> keys v = [''weight'', ''examples'', ''patterns'']
      \<and> has ''weight'' is_int v \<and> has ''examples'' is_str_seq v \<and> has ''patterns'' is_str_seq v)"

definition DishonestyMatrix :: "json \<Rightarrow> bool" where
  "DishonestyMatrix v =
     (is_obj v \<and> keys v = [''version'', ''contradictions'', ''omissions'', ''manipulations'']
      \<and> has ''version'' is_str v
      \<and> has ''contradictions'' is_category v
      \<and> has ''omissions'' is_category v
      \<and> has ''manipulations'' is_category v)"

text \<open>A severity of the ExtractionProtocol's scoring: \<open>weight\<close> and \<open>color\<close>.\<close>

definition is_severity :: "json \<Rightarrow> bool" where
  "is_severity v =
     (is_obj v \<and> keys v = [''weight'', ''color'']
      \<and> has ''weight'' is_int v \<and> has ''color'' is_str v)"

definition is_scoring :: "json \<Rightarrow> bool" where
  "is_scoring v =
     (is_obj v \<and> keys v = [''low'', ''medium'', ''high'']
      \<and> has ''low'' is_severity v \<and> has ''medium'' is_severity v \<and> has ''high'' is_severity v)"

definition ExtractionProtocol :: "json \<Rightarrow> bool" where
  "ExtractionProtocol v =
     (is_obj v \<and> keys v = [''version'', ''step1_keywords'', ''step2_tags'', ''step3_scoring'']
      \<and> has ''version'' is_str v
      \<and> has ''step1_keywords'' is_str_seq v
      \<and> has ''step2_tags'' is_str_seq v
      \<and> has ''step3_scoring'' is_scoring v)"

subsection \<open>Weights, tags and colours\<close>

text \<open>
  Every value stored under a key \<open>weight\<close>, at any depth, in document order, whatever
  its type; and what the claim asks of such a value.
\<close>

fun weight_fields :: "json \<Rightarrow> json list"
  and weight_fields_list :: "json list \<Rightarrow> json list"
  and weight_fields_dict :: "(string \<times> json) list \<Rightarrow> json list"
where
  "weight_fields (JStr s) = []"
| "weight_fields (JInt i) = []"
| "weight_fields (JArr xs) = weight_fields_list xs"
| "weight_fields (JObj kvs) = weight_fields_dict kvs"
| "weight_fields_list [] = []"
| "weight_fields_list (x # xs) = weight_fields x @ weight_fields_list xs"
| "weight_fields_dict [] = []"
| "weight_fields_dict ((k, v) # kvs) =
     (if k = ''weight'' then [v] else []) @ weight_fields v @ weight_fields_dict kvs"

definition weight_in_range :: "json \<Rightarrow> bool" where
  "weight_in_range v = (case v of JInt i \<Rightarrow> 1 \<le> i \<and> i \<le> 3 | _ \<Rightarrow> False)"

definition int_at :: "string list \<Rightarrow> json \<Rightarrow> int option" where
  "int_at ks d = (case get_path ks d of Some (JInt i) \<Rightarrow> Some i | _ \<Rightarrow> None)"

definition strings_of :: "json \<Rightarrow> string list" where
  "strings_of v =
     (case v of
        JArr xs \<Rightarrow> concat (map (\<lambda>x. case x of JStr s \<Rightarrow> [s] | _ \<Rightarrow> []) xs)
      | JStr s \<Rightarrow> [s]
      | _ \<Rightarrow> [])"

definition starts_with_hash :: "string \<Rightarrow> bool" where
  "starts_with_hash s = (case s of [] \<Rightarrow> False | c # _ \<Rightarrow> c = CHR ''#'')"

definition is_hex_digit :: "char \<Rightarrow> bool" where
  "is_hex_digit c = (hexval c \<noteq> None)"

definition is_hex_color :: "string \<Rightarrow> bool" where
  "is_hex_color s =
     (case s of
        [] \<Rightarrow> False
      | c # ds \<Rightarrow> c = CHR ''#'' \<and> length ds = 6 \<and> list_all is_hex_digit ds)"

subsection \<open>Text format\<close>

text \<open>Well-formed UTF-8 (RFC 3629) over the bytes of a text.\<close>

fun utf8_bytes :: "nat list \<Rightarrow> bool" where
  "utf8_bytes [] = True"
| "utf8_bytes (b # bs) =
     (if b < 0x80 then utf8_bytes bs
      else if 0xC2 \<le> b \<and> b \<le> 0xDF then
        (case bs of
           c1 # r \<Rightarrow> 0x80 \<le> c1 \<and> c1 \<le> 0xBF \<and> utf8_bytes r
         | _ \<Rightarrow> False)
      else if 0xE0 \<le> b \<and> b \<le> 0xEF then
        (case bs of
           c1 # c2 # r \<Rightarrow>
             (if b = 0xE0 then 0xA0 else 0x80) \<le> c1 \<and> c1 \<le> (if b = 0xED then 0x9F else 0xBF)
             \<and> 0x80 \<le> c2 \<and> c2 \<le> 0xBF \<and> utf8_bytes r
         | _ \<Rightarrow> False)
      else if 0xF0 \<le> b \<and> b \<le> 0xF4 then
        (case bs of
           c1 # c2 # c3 # r \<Rightarrow>
             (if b = 0xF0 then 0x90 else 0x80) \<le> c1 \<and> c1 \<le> (if b = 0xF4 then 0x8F else 0xBF)
             \<and> 0x80 \<le> c2 \<and> c2 \<le> 0xBF \<and> 0x80 \<le> c3 \<and> c3 \<le> 0xBF \<and> utf8_bytes r
         | _ \<Rightarrow> False)
      else False)"

definition utf8_valid :: "string \<Rightarrow> bool" where
  "utf8_valid s = utf8_bytes (map of_char s)"

text \<open>
  Indentation: a text is indented by \<open>k\<close> when it is broken into lines and the lines are
  indented. Broken into lines (\<open>breaks_ok\<close>): outside string literals a line ends after
  every comma and after every bracket or brace that opens a non-empty array or object,
  and a bracket or brace that closes one starts its line. Indented (\<open>indent_ok\<close>): every
  line starts with exactly \<open>k\<close> spaces per level of nesting, the level of a line being the
  number of brackets and braces open before it, less one when the line starts by closing
  one.
\<close>

fun split_lines :: "string \<Rightarrow> string \<Rightarrow> string list" where
  "split_lines acc [] = [rev acc]"
| "split_lines acc (c # cs) =
     (if c = CHR 0x0A then rev acc # split_lines [] cs else split_lines (c # acc) cs)"

definition leading_spaces :: "string \<Rightarrow> nat" where
  "leading_spaces l = length (takeWhile (\<lambda>c. c = CHR '' '') l)"

fun bracket_delta :: "bool \<Rightarrow> string \<Rightarrow> int" where
  "bracket_delta in_str [] = 0"
| "bracket_delta in_str [c] =
     (if in_str then 0
      else if c = CHR ''['' \<or> c = CHR ''{'' then 1
      else if c = CHR '']'' \<or> c = CHR ''}'' then - 1
      else 0)"
| "bracket_delta in_str (c # d # cs) =
     (if in_str then
        (if c = CHR 0x5C then bracket_delta True cs
         else if c = CHR 0x22 then bracket_delta False (d # cs)
         else bracket_delta True (d # cs))
      else if c = CHR 0x22 then bracket_delta True (d # cs)
      else if c = CHR ''['' \<or> c = CHR ''{'' then 1 + bracket_delta False (d # cs)
      else if c = CHR '']'' \<or> c = CHR ''}'' then bracket_delta False (d # cs) - 1
      else bracket_delta False (d # cs))"

definition starts_closing :: "string \<Rightarrow> bool" where
  "starts_closing l =
     (case dropWhile (\<lambda>c. c = CHR '' '') l of
        [] \<Rightarrow> False
      | c # _ \<Rightarrow> c = CHR '']'' \<or> c = CHR ''}'')"

fun indent_ok :: "nat \<Rightarrow> int \<Rightarrow> string list \<Rightarrow> bool" where
  "indent_ok k depth [] = True"
| "indent_ok k depth (l # ls) =
     (let d = (if starts_closing l then depth - 1 else depth) in
      0 \<le> d \<and> int (leading_spaces l) = int k * d
      \<and> indent_ok k (depth + bracket_delta False l) ls)"

fun breaks_ok :: "bool \<Rightarrow> bool \<Rightarrow> char \<Rightarrow> string \<Rightarrow> bool" where
  "breaks_ok in_str blank prev [] = (\<not> in_str)"
| "breaks_ok in_str blank prev (c # cs) =
     (if in_str then
        (if c = CHR 0x5C then
           (case cs of [] \<Rightarrow> False | e # cs' \<Rightarrow> breaks_ok True False e cs')
         else breaks_ok (c \<noteq> CHR 0x22) False c cs)
      else if c = CHR 0x22 then breaks_ok True False c cs
      else if c = CHR 0x0A then breaks_ok False True c cs
      else if c = CHR '' '' then breaks_ok False blank c cs
      else if c = CHR '','' then
        (case cs of [] \<Rightarrow> False | n # _ \<Rightarrow> n = CHR 0x0A) \<and> breaks_ok False False c cs
      else if c = CHR ''['' then
        (case cs of [] \<Rightarrow> False | n # _ \<Rightarrow> n = CHR 0x0A \<or> n = CHR '']'')
        \<and> breaks_ok False False c cs
      else if c = CHR ''{'' then
        (case cs of [] \<Rightarrow> False | n # _ \<Rightarrow> n = CHR 0x0A \<or> n = CHR ''}'')
        \<and> breaks_ok False False c cs
      else if c = CHR '']'' then (blank \<or> prev = CHR ''['') \<and> breaks_ok False False c cs
      else if c = CHR ''}'' then (blank \<or> prev = CHR ''{'') \<and> breaks_ok False False c cs
      else breaks_ok False False c cs)"

definition indented_by :: "nat \<Rightarrow> string \<Rightarrow> bool" where
  "indented_by k text =
     (breaks_ok False True (CHR 0x0A) text \<and> indent_ok k 0 (split_lines [] text))"

text \<open>The number of spaces that start each line of a text.\<close>

definition indent_profile :: "string \<Rightarrow> nat list" where
  "indent_profile text = map leading_spaces (split_lines [] text)"

subsection \<open>Files of a filesystem\<close>



text \<open>What a consumer gets when it opens a path and parses it.\<close>

definition read_json :: "world \<Rightarrow> path \<Rightarrow> json option" where
  "read_json w p = (case nodes w p of Some (File _ t) \<Rightarrow> json_loads t | _ \<Rightarrow> None)"

definition read_text :: "world \<Rightarrow> path \<Rightarrow> string option" where
  "read_text w p = (case nodes w p of Some (File _ t) \<Rightarrow> Some t | _ \<Rightarrow> None)"

text \<open>The tags of \<open>step2_tags\<close> and the colours of the members of \<open>step3_scoring\<close>.\<close>

definition tag_values :: "json \<Rightarrow> string list" where
  "tag_values d = (case get ''step2_tags'' d of Some v \<Rightarrow> strings_of v | None \<Rightarrow> [])"

definition color_values :: "json \<Rightarrow> string list" where
  "color_values d =
     (case get ''step3_scoring'' d of
        Some (JObj kvs) \<Rightarrow>
          concat (map (\<lambda>(k, v). case get ''color'' v of Some c \<Rightarrow> strings_of c | None \<Rightarrow> []) kvs)
      | _ \<Rightarrow> [])"

subsection \<open>Frame of the directory creation\<close>

text \<open>\<open>same_env w w'\<close>: the umask and the console are those of \<open>w\<close>.\<close>

definition same_env :: "world \<Rightarrow> world \<Rightarrow> bool" where
  "same_env w w' \<longleftrightarrow>
     creates_writable w' = creates_writable w \<and> stdout_unicode w' = stdout_unicode w"

text \<open>
  \<open>adds_dirs p w w'\<close>: from \<open>w\<close> to \<open>w'\<close> nothing changed except that prefixes of \<open>p\<close> which
  did not exist are now directories, with the mode the umask gives.
\<close>

definition adds_dirs :: "path \<Rightarrow> world \<Rightarrow> world \<Rightarrow> bool" where
  "adds_dirs p w w' \<longleftrightarrow>
     free w' = free w \<and> stdout w' = stdout w \<and> same_env w w'
     \<and> (\<forall>q. nodes w' q = nodes w q
            \<or> (nodes w q = None \<and> nodes w' q = Some (Dir (creates_writable w))
                \<and> (\<exists>n. q = take n p)))"

section \<open>Concrete filesystems\<close>

text \<open>A checkout that holds the script and nothing of its output.\<close>

definition fresh_checkout :: world where
  "fresh_checkout = \<lparr>nodes = [[] \<mapsto> Dir True, [''scripts''] \<mapsto> Dir True,
      [''scripts'', ''generate-assets.py''] \<mapsto> File True ''#!/usr/bin/env python3''],
    free = 4096, stdout = [],
     creates_writable = True, stdout_unicode = True\<rparr>"

text \<open>The directories of an Android project down to \<open>app/src/main\<close>.\<close>

definition project_dirs :: "(path \<times> node) list" where
  "project_dirs =
     [([], Dir True), ([''app''], Dir True), ([''app'', ''src''], Dir True),
      ([''app'', ''src'', ''main''], Dir True)]"

text \<open>The rules directory exists and holds a stale matrix and a file of the user's.\<close>

definition populated :: world where
  "populated = \<lparr>nodes = map_of (project_dirs @
       [([''app'', ''src'', ''main'', ''assets''], Dir True),
        ([''app'', ''src'', ''main'', ''assets'', ''rules''], Dir True),
        ([''app'', ''src'', ''main'', ''assets'', ''rules'', ''custom_rules.json''],
           File True ''{}''),
        ([''app'', ''src'', ''main'', ''assets'', ''rules'', ''dishonesty_matrix.json''],
           File True ''stale'')]),
     free = 2048, stdout = [],
     creates_writable = True, stdout_unicode = True\<rparr>"







text \<open>An empty, writable root with exactly the room the two documents need.\<close>

definition bare_root :: world where
  "bare_root = \<lparr>nodes = [[] \<mapsto> Dir True], free = 1127, stdout = [],
     creates_writable = True, stdout_unicode = True\<rparr>"



section \<open>What a successful run leaves in the two files\<close>

lemma len_matrix: "length (json_dumps 2 dishonesty_matrix) = 619"
  by code_simp

lemma len_protocol: "length (json_dumps 2 extraction_protocol) = 508"
  by code_simp

lemma paths_differ: "matrix_path \<noteq> protocol_path"
  by (simp add: matrix_path_def protocol_path_def)

lemma open_w_ok:
  assumes "open_w p w = Inr w1"
  shows "\<exists>b old. nodes w1 = (nodes w)(p \<mapsto> File b []) \<and> (creates_writable w \<longrightarrow> b)
           \<and> free w1 = free w + old \<and> stdout w1 = stdout w \<and> same_env w w1"
  using assms
  by (auto simp: open_w_def same_env_def split: option.splits node.splits if_splits bool.splits)

lemma write_close_ok:
  assumes "write_close p d w = Inr w2" and "nodes w p = Some (File b t)"
  shows "nodes w2 = (nodes w)(p \<mapsto> File b d) \<and> stdout w2 = stdout w \<and> same_env w w2
         \<and> length d \<le> free w \<and> free w2 = free w - length d"
  using assms by (auto simp: write_close_def same_env_def Let_def split: if_splits)

lemma dump_ok:
  assumes "dump_to_file obj p w = Inr w'"
  shows "\<exists>b. nodes w' = (nodes w)(p \<mapsto> File b (json_dumps 2 obj)) \<and> (creates_writable w \<longrightarrow> b)
           \<and> stdout w' = stdout w \<and> same_env w w'"
proof -
  from assms obtain w1 where o: "open_w p w = Inr w1"
    and c: "write_close p (json_dumps 2 obj) w1 = Inr w'"
    by (auto simp: dump_to_file_def split: sum.splits)
  from open_w_ok [OF o] obtain b where n1: "nodes w1 = (nodes w)(p \<mapsto> File b [])"
    and b: "creates_writable w \<longrightarrow> b"
    and s1: "stdout w1 = stdout w" and e1: "same_env w w1" by auto
  from n1 have "nodes w1 p = Some (File b [])" by simp
  from write_close_ok [OF c this] n1 s1 e1 b show ?thesis
    by (auto simp: same_env_def)
qed

lemma print_ok: "print l w = Inr w' \<Longrightarrow> w' = w\<lparr>stdout := stdout w @ [l]\<rparr>"
  by (auto simp: print_def split: if_splits)

lemma print_fail: "print l w = Inl (e, w') \<Longrightarrow> e = UnicodeEncodeError \<and> w' = w"
  by (auto simp: print_def split: if_splits)

lemma print_nodes: "nodes (final_world (print l w)) = nodes w"
  by (simp add: print_def final_world_def)

lemma print_unicode: "stdout_unicode w \<Longrightarrow> print l w = Inr (w\<lparr>stdout := stdout w @ [l]\<rparr>)"
  by (simp add: print_def)

lemma check_mark_beyond_ascii:
  "list_ex (\<lambda>c. 128 \<le> (of_char c :: nat)) (created_msg name)"
  "list_ex (\<lambda>c. 128 \<le> (of_char c :: nat)) success_msg"
  by (simp_all add: created_msg_def success_msg_def check_mark_def)

lemma print_needs_unicode:
  "print (created_msg name) w = Inr w' \<Longrightarrow> stdout_unicode w"
  "print success_msg w = Inr w' \<Longrightarrow> stdout_unicode w"
  using check_mark_beyond_ascii(1) [of name] check_mark_beyond_ascii(2)
  by (auto simp: print_def split: if_splits)


text \<open>The steps of a run that completes.\<close>

lemma run_steps:
  assumes "create_rule_assets w = Inr w'"
  obtains w1 w2 w3 w4 w5 where
    "pathlib_mkdir True True assets_dir w = Inr w1"
    "dump_to_file dishonesty_matrix matrix_path w1 = Inr w2"
    "print (created_msg ''dishonesty_matrix.json'') w2 = Inr w3"
    "dump_to_file extraction_protocol protocol_path w3 = Inr w4"
    "print (created_msg ''extraction_protocol.json'') w4 = Inr w5"
    "print success_msg w5 = Inr w'"
  using assms by (auto simp: create_rule_assets_def split: sum.splits)

lemma run_writes:
  assumes "create_rule_assets w = Inr w'"
  shows "\<exists>b. nodes w' matrix_path = Some (File b (json_dumps 2 dishonesty_matrix))"
    and "\<exists>b. nodes w' protocol_path = Some (File b (json_dumps 2 extraction_protocol))"
proof -
  from assms obtain w1 w2 w3 w4 w5 where
    d1: "dump_to_file dishonesty_matrix matrix_path w1 = Inr w2" and
    p1: "print (created_msg ''dishonesty_matrix.json'') w2 = Inr w3" and
    d2: "dump_to_file extraction_protocol protocol_path w3 = Inr w4" and
    p2: "print (created_msg ''extraction_protocol.json'') w4 = Inr w5" and
    p3: "print success_msg w5 = Inr w'"
    by (rule run_steps)
  from dump_ok [OF d1] obtain b1 where
    n2: "nodes w2 matrix_path = Some (File b1 (json_dumps 2 dishonesty_matrix))" by auto
  from print_ok [OF p1] have n3: "nodes w3 = nodes w2" by simp
  from dump_ok [OF d2] obtain b2 where
    n4: "nodes w4 = (nodes w3)(protocol_path \<mapsto> File b2 (json_dumps 2 extraction_protocol))"
    by auto
  from print_ok [OF p2] print_ok [OF p3] have n': "nodes w' = nodes w4" by simp
  from n2 n3 n4 n' paths_differ
  show "\<exists>b. nodes w' matrix_path = Some (File b (json_dumps 2 dishonesty_matrix))" by simp
  from n4 n'
  show "\<exists>b. nodes w' protocol_path = Some (File b (json_dumps 2 extraction_protocol))" by simp
qed

lemma run_texts:
  assumes "create_rule_assets w = Inr w'"
  shows "read_text w' matrix_path = Some (json_dumps 2 dishonesty_matrix)"
    and "read_text w' protocol_path = Some (json_dumps 2 extraction_protocol)"
  using run_writes [OF assms] by (auto simp: read_text_def)

lemmas run_defs =
  create_rule_assets_def assets_dir_def pathlib_mkdir.simps os_mkdir_def parent_def is_dir_def
  dump_to_file_def open_w_def write_close_def matrix_path_def protocol_path_def print_def
  len_matrix len_protocol

lemma run_fresh_checkout: "\<exists>w'. create_rule_assets fresh_checkout = Inr w'"
  by (simp add: fresh_checkout_def run_defs)

lemma loads_matrix: "json_loads (json_dumps 2 dishonesty_matrix) = Some dishonesty_matrix"
  by code_simp

lemma loads_protocol: "json_loads (json_dumps 2 extraction_protocol) = Some extraction_protocol"
  by code_simp

lemma run_reads:
  assumes "create_rule_assets w = Inr w'"
  shows "read_json w' matrix_path = Some dishonesty_matrix"
    and "read_json w' protocol_path = Some extraction_protocol"
  using run_writes [OF assms] by (auto simp: read_json_def loads_matrix loads_protocol)

lemma utf8_matrix: "utf8_valid (json_dumps 2 dishonesty_matrix)"
  by code_simp

lemma utf8_protocol: "utf8_valid (json_dumps 2 extraction_protocol)"
  by code_simp

lemma indented_matrix: "indented_by 2 (json_dumps 2 dishonesty_matrix)"
  by code_simp

lemma indented_protocol: "indented_by 2 (json_dumps 2 extraction_protocol)"
  by code_simp

lemma profile_matrix:
  "indent_profile (json_dumps 2 dishonesty_matrix) =
     [0, 2, 2, 4, 4, 6, 4, 4, 6, 6, 6, 6, 4, 2, 2, 4, 4, 6, 4, 4, 6, 6, 6, 4, 2,
      2, 4, 4, 6, 4, 4, 6, 6, 4, 2, 0]"
  by code_simp

lemma profile_protocol:
  "indent_profile (json_dumps 2 extraction_protocol) =
     [0, 2, 2, 4, 4, 4, 4, 4, 4, 4, 4, 4, 4, 2, 2, 4, 4, 4, 4, 2, 2, 4, 6, 6, 4,
      4, 6, 6, 4, 4, 6, 6, 4, 2, 0]"
  by code_simp

lemma schema_matrix: "DishonestyMatrix dishonesty_matrix"
  by code_simp

lemma schema_protocol: "ExtractionProtocol extraction_protocol"
  by code_simp

section \<open>Path resolution\<close>

lemma walk_snoc:
  "walk fs cur (xs @ [y]) =
     (case walk fs cur xs of Some e \<Rightarrow> Some e | None \<Rightarrow> walk fs (cur @ xs @ [y]) [])"
  by (induction xs arbitrary: cur) (auto split: option.splits node.splits)

lemma walk_append:
  "walk fs cur (xs @ ys) =
     (case walk fs cur xs of Some e \<Rightarrow> Some e | None \<Rightarrow> walk fs (cur @ xs) ys)"
proof (induction xs arbitrary: cur)
  case Nil
  show ?case by (cases ys) (auto split: option.splits node.splits)
next
  case (Cons x xs)
  then show ?case by (auto split: option.splits node.splits)
qed

lemma is_dir_snoc:
  "is_dir w (q @ [c]) \<longleftrightarrow> is_dir w q \<and> (\<exists>b. nodes w (q @ [c]) = Some (Dir b))"
  by (auto simp: is_dir_def walk_snoc split: option.splits node.splits)

lemma is_dir_parent: "is_dir w p \<Longrightarrow> is_dir w (parent p)"
  by (cases p rule: rev_cases) (auto simp: parent_def is_dir_snoc)

lemma is_dir_node: "is_dir w p \<Longrightarrow> \<exists>b. nodes w p = Some (Dir b)"
proof (cases p rule: rev_cases)
  case Nil
  assume "is_dir w p"
  with Nil show ?thesis by (auto simp: is_dir_def split: option.splits node.splits)
next
  case (snoc q c)
  assume "is_dir w p"
  with snoc show ?thesis by (simp add: is_dir_snoc)
qed

lemma is_dir_take: "is_dir w p \<Longrightarrow> is_dir w (take n p)"
proof -
  assume "is_dir w p"
  then have "walk (nodes w) [] (take n p @ drop n p) = None" by (simp add: is_dir_def)
  then have "(case walk (nodes w) [] (take n p) of Some e \<Rightarrow> Some e
              | None \<Rightarrow> walk (nodes w) ([] @ take n p) (drop n p)) = None"
    by (simp only: walk_append)
  then show ?thesis by (simp add: is_dir_def split: option.splits)
qed

text \<open>Resolution only looks at the prefixes of the path.\<close>

lemma walk_cong:
  assumes "\<And>n. n \<le> length cs \<Longrightarrow> fs' (cur @ take n cs) = fs (cur @ take n cs)"
  shows "walk fs' cur cs = walk fs cur cs"
  using assms
proof (induction cs arbitrary: cur)
  case Nil
  from Nil [of 0] show ?case by simp
next
  case (Cons c cs)
  from Cons.prems [of 0] have h: "fs' cur = fs cur" by simp
  have "walk fs' (cur @ [c]) cs = walk fs (cur @ [c]) cs"
  proof (rule Cons.IH)
    fix n assume "n \<le> length cs"
    with Cons.prems [of "Suc n"]
    show "fs' ((cur @ [c]) @ take n cs) = fs ((cur @ [c]) @ take n cs)" by simp
  qed
  with h show ?case by (simp split: option.splits node.splits)
qed

lemma is_dir_upd:
  assumes "nodes w' = (nodes w)(x \<mapsto> v)" and "\<And>n. x \<noteq> take n p"
  shows "is_dir w' p = is_dir w p"
proof -
  have "walk (nodes w') [] p = walk (nodes w) [] p"
  proof (rule walk_cong)
    fix n assume "n \<le> length p"
    from assms(2) [of n] show "nodes w' ([] @ take n p) = nodes w ([] @ take n p)"
      by (simp add: assms(1))
  qed
  then show ?thesis by (simp add: is_dir_def)
qed

lemma is_dir_same_nodes: "nodes w' = nodes w \<Longrightarrow> is_dir w' p = is_dir w p"
  by (simp add: is_dir_def)


section \<open>Directory creation\<close>

lemma os_mkdir_cases:
  "os_mkdir p w = Inr w' \<Longrightarrow>
     w' = w\<lparr>nodes := (nodes w)(p \<mapsto> Dir (creates_writable w))\<rparr> \<and> nodes w p = None
     \<and> is_dir w (parent p)"
  "os_mkdir p w = Inl (e, w') \<Longrightarrow> w' = w"
  by (auto simp: os_mkdir_def is_dir_def split: option.splits node.splits bool.splits)

lemma os_mkdir_is_dir: "os_mkdir p w = Inr w' \<Longrightarrow> p \<noteq> [] \<Longrightarrow> is_dir w' p"
proof -
  assume a: "os_mkdir p w = Inr w'" and ne: "p \<noteq> []"
  from os_mkdir_cases(1) [OF a]
  have w': "w' = w\<lparr>nodes := (nodes w)(p \<mapsto> Dir (creates_writable w))\<rparr>"
    and d: "is_dir w (parent p)" by auto
  from ne obtain q c where p: "p = q @ [c]" by (cases p rule: rev_cases) auto
  have "is_dir w' q = is_dir w q"
  proof (rule is_dir_upd)
    show "nodes w' = (nodes w)(p \<mapsto> Dir (creates_writable w))" by (simp add: w')
    fix n
    have "length (take n q) \<noteq> length p" by (simp add: p)
    then show "p \<noteq> take n q" by metis
  qed
  with d have "is_dir w' q" by (simp add: p parent_def)
  then show ?thesis by (auto simp: p is_dir_snoc w')
qed

text \<open>The frame of the step: whatever it returns, it only adds directories.\<close>

lemma adds_dirs_refl: "adds_dirs p w w"
  by (simp add: adds_dirs_def same_env_def)

lemma take_parent: "\<exists>m. take n (parent p) = take m p"
  by (metis parent_def butlast_conv_take take_take)

lemma adds_dirs_parent: "adds_dirs (parent p) a b \<Longrightarrow> adds_dirs p a b"
  unfolding adds_dirs_def using take_parent by metis

lemma adds_dirs_trans:
  assumes "adds_dirs p a b" and "adds_dirs p b c"
  shows "adds_dirs p a c"
proof -
  from assms have env: "creates_writable b = creates_writable a" "same_env a c"
    "free c = free a" "stdout c = stdout a"
    by (auto simp: adds_dirs_def same_env_def)
  have "nodes c q = nodes a q
        \<or> (nodes a q = None \<and> nodes c q = Some (Dir (creates_writable a)) \<and> (\<exists>n. q = take n p))"
    for q
  proof -
    from assms(1) have ab: "nodes b q = nodes a q
        \<or> (nodes a q = None \<and> nodes b q = Some (Dir (creates_writable a))
            \<and> (\<exists>n. q = take n p))"
      by (simp add: adds_dirs_def)
    from assms(2) env(1) have bc: "nodes c q = nodes b q
        \<or> (nodes b q = None \<and> nodes c q = Some (Dir (creates_writable a))
            \<and> (\<exists>n. q = take n p))"
      by (simp add: adds_dirs_def)
    from ab bc show ?thesis by auto
  qed
  with env show ?thesis by (simp add: adds_dirs_def)
qed

lemma os_mkdir_frame: "adds_dirs p w (final_world (os_mkdir p w))"
proof -
  have "p = take (length p) p" by simp
  then have "\<exists>n. p = take n p" ..
  then show ?thesis
    by (auto simp: os_mkdir_def adds_dirs_def same_env_def final_world_def
        split: option.splits node.splits bool.splits)
qed

lemma pathlib_mkdir_frame: "adds_dirs p w (final_world (pathlib_mkdir ps eo p w))"
proof (induction ps eo p w rule: pathlib_mkdir.induct)
  case (1 parents exist_ok p w)
  show ?case
  proof (cases "os_mkdir p w")
    case (Inr w')
    with os_mkdir_frame [of p w] show ?thesis
      by (subst pathlib_mkdir.simps) simp
  next
    case (Inl x)
    obtain e w0 where x: "x = (e, w0)" by (cases x)
    from os_mkdir_cases(2) Inl x have w0: "w0 = w" by simp
    show ?thesis
    proof (cases "e = FileNotFoundError \<and> \<not> (\<not> parents \<or> parent p = p)")
      case False
      then show ?thesis using Inl x w0
        by (subst pathlib_mkdir.simps) (auto simp: final_world_def adds_dirs_refl)
    next
      case True
      note ih1 = "1.IH"(1) [OF Inl x [symmetric]]
      note ih2 = "1.IH"(2) [OF Inl x [symmetric]]
      show ?thesis
      proof (cases "pathlib_mkdir True True (parent p) w")
        case (Inl y)
        with True ih1 w0 have "adds_dirs (parent p) w (final_world (Inl y))" by auto
        then have "adds_dirs p w (final_world (Inl y))" by (rule adds_dirs_parent)
        with True Inl \<open>os_mkdir p w = Inl x\<close> x w0 show ?thesis
          by (subst pathlib_mkdir.simps) (auto simp: final_world_def)
      next
        case (Inr w1)
        with True ih1 w0 have "adds_dirs (parent p) w w1" by (auto simp: final_world_def)
        then have a: "adds_dirs p w w1" by (rule adds_dirs_parent)
        from True ih2 Inr w0
        have b: "adds_dirs p w1 (final_world (pathlib_mkdir False exist_ok p w1))"
          by auto
        from adds_dirs_trans [OF a b] True Inr \<open>os_mkdir p w = Inl x\<close> x w0 show ?thesis
          by (subst pathlib_mkdir.simps) auto
      qed
    qed
  qed
qed

lemma pathlib_mkdir_is_dir:
  "pathlib_mkdir ps eo p w = Inr w' \<Longrightarrow> is_dir w' p"
proof (induction ps eo p w arbitrary: w' rule: pathlib_mkdir.induct)
  case (1 parents exist_ok p w)
  show ?case
  proof (cases "os_mkdir p w")
    case (Inr w1)
    with "1.prems" have eq: "w' = w1" by (subst (asm) pathlib_mkdir.simps) simp
    have "p \<noteq> []"
    proof
      assume "p = []"
      with Inr have "nodes w [] = None" "is_dir w []"
        using os_mkdir_cases(1) [of "[]" w w1] by (auto simp: parent_def)
      then show False by (auto dest: is_dir_node)
    qed
    with os_mkdir_is_dir [OF Inr] eq show ?thesis by simp
  next
    case (Inl x)
    obtain e w0 where x: "x = (e, w0)" by (cases x)
    from os_mkdir_cases(2) Inl x have w0: "w0 = w" by simp
    show ?thesis
    proof (cases "e = FileNotFoundError")
      case False
      with "1.prems" Inl x w0 show ?thesis
        by (subst (asm) pathlib_mkdir.simps) (auto split: if_splits)
    next
      case True
      with "1.prems" Inl x w0 obtain w1 where
        np: "\<not> (\<not> parents \<or> parent p = p)" and
        a: "pathlib_mkdir True True (parent p) w = Inr w1" and
        b: "pathlib_mkdir False exist_ok p w1 = Inr w'"
        by (subst (asm) pathlib_mkdir.simps) (auto split: if_splits sum.splits)
      from "1.IH"(2) [OF Inl x [symmetric] True np _ b] a w0 show ?thesis by simp
    qed
  qed
qed

lemma pathlib_mkdir_existing: "is_dir w p \<Longrightarrow> pathlib_mkdir ps True p w = Inr w"
proof -
  assume d: "is_dir w p"
  from is_dir_node [OF d] obtain b where n: "nodes w p = Some (Dir b)" ..
  from is_dir_parent [OF d] have "walk (nodes w) [] (parent p) = None" by (simp add: is_dir_def)
  with n have "os_mkdir p w = Inl (FileExistsError, w)" by (simp add: os_mkdir_def)
  with d show ?thesis by (subst pathlib_mkdir.simps) simp
qed


section \<open>Creating the missing ancestors\<close>



section \<open>Failing directory creation\<close>




section \<open>Invariants of a run\<close>

lemma final_world_Inr: "final_world (Inr w) = w"
  by (simp add: final_world_def)

lemma final_world_Inl: "final_world (Inl (e, w)) = w"
  by (simp add: final_world_def)

text \<open>
  A transitive relation that every step of the script respects, whatever the step
  returns, holds between the state before a run and the state after it.
\<close>

lemma run_induct:
  assumes trans: "\<And>a b c. R a b \<Longrightarrow> R b c \<Longrightarrow> R a c"
    and m: "\<And>a. R a (final_world (pathlib_mkdir True True assets_dir a))"
    and d1: "\<And>a. R a (final_world (dump_to_file dishonesty_matrix matrix_path a))"
    and d2: "\<And>a. R a (final_world (dump_to_file extraction_protocol protocol_path a))"
    and pr: "\<And>l a. R a (final_world (print l a))"
  shows "R w (final_world (create_rule_assets w))"
proof (cases "pathlib_mkdir True True assets_dir w")
  case (Inl x)
  with m [of w] show ?thesis by (simp add: create_rule_assets_def)
next
  case s1: (Inr w1)
  with m [of w] have r1: "R w w1" by (simp add: final_world_Inr)
  show ?thesis
  proof (cases "dump_to_file dishonesty_matrix matrix_path w1")
    case (Inl x)
    with d1 [of w1] have "R w1 (final_world (create_rule_assets w))"
      using s1 by (simp add: create_rule_assets_def)
    with r1 show ?thesis by (rule trans)
  next
    case s2: (Inr w2)
    with d1 [of w1] have "R w1 w2" by (simp add: final_world_Inr)
    with r1 have r2: "R w w2" by (rule trans)
    show ?thesis
    proof (cases "print (created_msg ''dishonesty_matrix.json'') w2")
      case (Inl x)
      with pr [where l = "created_msg ''dishonesty_matrix.json''" and a = w2]
      have "R w2 (final_world (create_rule_assets w))"
        using s1 s2 by (simp add: create_rule_assets_def)
      with r2 show ?thesis by (rule trans)
    next
      case s3: (Inr w3)
      with pr [where l = "created_msg ''dishonesty_matrix.json''" and a = w2] have "R w2 w3"
        by (simp add: final_world_Inr)
      with r2 have r3: "R w w3" by (rule trans)
      show ?thesis
      proof (cases "dump_to_file extraction_protocol protocol_path w3")
        case (Inl x)
        with d2 [of w3] have "R w3 (final_world (create_rule_assets w))"
          using s1 s2 s3 by (simp add: create_rule_assets_def)
        with r3 show ?thesis by (rule trans)
      next
        case s4: (Inr w4)
        with d2 [of w3] have "R w3 w4" by (simp add: final_world_Inr)
        with r3 have r4: "R w w4" by (rule trans)
        show ?thesis
        proof (cases "print (created_msg ''extraction_protocol.json'') w4")
          case (Inl x)
          with pr [where l = "created_msg ''extraction_protocol.json''" and a = w4]
          have "R w4 (final_world (create_rule_assets w))"
            using s1 s2 s3 s4 by (simp add: create_rule_assets_def)
          with r4 show ?thesis by (rule trans)
        next
          case s5: (Inr w5)
          with pr [where l = "created_msg ''extraction_protocol.json''" and a = w4] have "R w4 w5"
            by (simp add: final_world_Inr)
          with r4 have r5: "R w w5" by (rule trans)
          from pr [where l = success_msg and a = w5]
          have "R w5 (final_world (create_rule_assets w))"
            using s1 s2 s3 s4 s5 by (simp add: create_rule_assets_def)
          with r5 show ?thesis by (rule trans)
        qed
      qed
    qed
  qed
qed

lemma dump_frame: "q \<noteq> p \<Longrightarrow> nodes (final_world (dump_to_file obj p w)) q = nodes w q"
  by (auto simp: dump_to_file_def open_w_def write_close_def final_world_def Let_def
      split: option.splits node.splits bool.splits if_splits sum.splits)

lemma dump_env: "same_env w (final_world (dump_to_file obj p w))"
  by (auto simp: dump_to_file_def open_w_def write_close_def final_world_def Let_def
      same_env_def split: option.splits node.splits bool.splits if_splits sum.splits)

lemma print_env: "same_env w (final_world (print l w))"
  by (simp add: print_def final_world_def same_env_def)

lemma mkdir_env: "same_env w (final_world (pathlib_mkdir ps eo p w))"
  using pathlib_mkdir_frame [of p w ps eo] by (simp add: adds_dirs_def)

lemma same_env_trans: "same_env a b \<Longrightarrow> same_env b c \<Longrightarrow> same_env a c"
  by (simp add: same_env_def)

lemma run_env: "same_env w (final_world (create_rule_assets w))"
proof (rule run_induct [where R = same_env])
  show "\<And>a b c. same_env a b \<Longrightarrow> same_env b c \<Longrightarrow> same_env a c" by (rule same_env_trans)
qed (rule mkdir_env dump_env print_env)+

text \<open>Outside the two named files a run only adds directories.\<close>

lemma run_frame:
  assumes "q \<noteq> matrix_path" and "q \<noteq> protocol_path"
  shows "nodes (final_world (create_rule_assets w)) q = nodes w q
         \<or> (nodes w q = None
            \<and> nodes (final_world (create_rule_assets w)) q = Some (Dir (creates_writable w))
            \<and> (\<exists>n. q = take n assets_dir))"
proof -
  let ?R = "\<lambda>a b. same_env a b \<and>
      (nodes b q = nodes a q
       \<or> (nodes a q = None \<and> nodes b q = Some (Dir (creates_writable a))
           \<and> (\<exists>n. q = take n assets_dir)))"
  have "?R w (final_world (create_rule_assets w))"
  proof (rule run_induct [where R = ?R])
    fix a b c assume "?R a b" and "?R b c"
    then show "?R a c" by (auto simp: same_env_def)
  next
    fix a
    from pathlib_mkdir_frame [of assets_dir a True True]
    show "?R a (final_world (pathlib_mkdir True True assets_dir a))"
      by (simp add: adds_dirs_def)
  next
    fix a
    from assms(1) dump_frame dump_env
    show "?R a (final_world (dump_to_file dishonesty_matrix matrix_path a))" by simp
  next
    fix a
    from assms(2) dump_frame dump_env
    show "?R a (final_world (dump_to_file extraction_protocol protocol_path a))" by simp
  next
    fix l a
    show "?R a (final_world (print l a))" by (simp add: print_env print_nodes)
  qed
  then show ?thesis by simp
qed

lemma run_frame_existing:
  assumes "is_dir w assets_dir" and "q \<noteq> matrix_path" and "q \<noteq> protocol_path"
  shows "nodes (final_world (create_rule_assets w)) q = nodes w q"
proof -
  from run_frame [OF assms(2,3), of w]
  show ?thesis
  proof
    assume "nodes (final_world (create_rule_assets w)) q = nodes w q"
    then show ?thesis .
  next
    assume a: "nodes w q = None
            \<and> nodes (final_world (create_rule_assets w)) q = Some (Dir (creates_writable w))
            \<and> (\<exists>n. q = take n assets_dir)"
    then obtain n where q: "q = take n assets_dir" by auto
    from assms(1) have "is_dir w (take n assets_dir)" by (rule is_dir_take)
    from is_dir_node [OF this] a q show ?thesis by auto
  qed
qed


section \<open>Running again\<close>

lemma not_prefix_of_assets_dir:
  "matrix_path \<noteq> take n assets_dir" "protocol_path \<noteq> take n assets_dir"
proof -
  show "matrix_path \<noteq> take n assets_dir"
  proof
    assume "matrix_path = take n assets_dir"
    then have "length matrix_path = length (take n assets_dir)" by (rule arg_cong)
    then show False by (simp add: matrix_path_def assets_dir_def)
  qed
  show "protocol_path \<noteq> take n assets_dir"
  proof
    assume "protocol_path = take n assets_dir"
    then have "length protocol_path = length (take n assets_dir)" by (rule arg_cong)
    then show False by (simp add: protocol_path_def assets_dir_def)
  qed
qed

lemma parent_of_files:
  "parent matrix_path = assets_dir" "parent protocol_path = assets_dir"
  by (simp_all add: parent_def matrix_path_def protocol_path_def)

lemma dump_is_dir:
  assumes "dump_to_file obj p w = Inr w'" and "\<And>n. p \<noteq> take n d"
  shows "is_dir w' d = is_dir w d"
proof -
  from dump_ok [OF assms(1)] obtain b where
    "nodes w' = (nodes w)(p \<mapsto> File b (json_dumps 2 obj))" by auto
  then show ?thesis using assms(2) by (rule is_dir_upd)
qed

lemma print_is_dir: "print l w = Inr w' \<Longrightarrow> is_dir w' d = is_dir w d"
  by (auto dest!: print_ok simp: is_dir_def)

lemma run_is_dir:
  assumes "create_rule_assets w = Inr w'"
  shows "is_dir w' assets_dir"
proof -
  from assms obtain w1 w2 w3 w4 w5 where
    m: "pathlib_mkdir True True assets_dir w = Inr w1" and
    d1: "dump_to_file dishonesty_matrix matrix_path w1 = Inr w2" and
    p1: "print (created_msg ''dishonesty_matrix.json'') w2 = Inr w3" and
    d2: "dump_to_file extraction_protocol protocol_path w3 = Inr w4" and
    p2: "print (created_msg ''extraction_protocol.json'') w4 = Inr w5" and
    p3: "print success_msg w5 = Inr w'"
    by (rule run_steps)
  from pathlib_mkdir_is_dir [OF m] have "is_dir w1 assets_dir" .
  with dump_is_dir [OF d1 not_prefix_of_assets_dir(1)] have "is_dir w2 assets_dir" by simp
  with print_is_dir [OF p1] have "is_dir w3 assets_dir" by simp
  with dump_is_dir [OF d2 not_prefix_of_assets_dir(2)] have "is_dir w4 assets_dir" by simp
  with print_is_dir [OF p2] have "is_dir w5 assets_dir" by simp
  with print_is_dir [OF p3] show ?thesis by simp
qed

lemma run_unicode:
  assumes "create_rule_assets w = Inr w'"
  shows "stdout_unicode w'"
proof -
  from assms obtain w5 where p3: "print success_msg w5 = Inr w'" by (rule run_steps)
  from print_needs_unicode(2) [OF p3] print_ok [OF p3] show ?thesis by simp
qed

lemma run_writable:
  assumes "create_rule_assets w = Inr w'" and "creates_writable w"
  shows "nodes w' matrix_path = Some (File True (json_dumps 2 dishonesty_matrix))"
    and "nodes w' protocol_path = Some (File True (json_dumps 2 extraction_protocol))"
proof -
  from assms(1) obtain w1 w2 w3 w4 w5 where
    m: "pathlib_mkdir True True assets_dir w = Inr w1" and
    d1: "dump_to_file dishonesty_matrix matrix_path w1 = Inr w2" and
    p1: "print (created_msg ''dishonesty_matrix.json'') w2 = Inr w3" and
    d2: "dump_to_file extraction_protocol protocol_path w3 = Inr w4" and
    p2: "print (created_msg ''extraction_protocol.json'') w4 = Inr w5" and
    p3: "print success_msg w5 = Inr w'"
    by (rule run_steps)
  from mkdir_env [of w True True assets_dir] m assms(2) have c1: "creates_writable w1"
    by (simp add: same_env_def final_world_Inr)
  from dump_ok [OF d1] c1
  have n2: "nodes w2 = (nodes w1)(matrix_path \<mapsto> File True (json_dumps 2 dishonesty_matrix))"
    and c2: "creates_writable w2" by (auto simp: same_env_def)
  from print_ok [OF p1] c2 have n3: "nodes w3 = nodes w2" and c3: "creates_writable w3"
    by simp_all
  from dump_ok [OF d2] c3
  have n4: "nodes w4 = (nodes w3)(protocol_path \<mapsto> File True (json_dumps 2 extraction_protocol))"
    by auto
  from print_ok [OF p2] print_ok [OF p3] have n': "nodes w' = nodes w4" by simp
  from n2 n3 n4 n' paths_differ
  show "nodes w' matrix_path = Some (File True (json_dumps 2 dishonesty_matrix))" by simp
  from n4 n'
  show "nodes w' protocol_path = Some (File True (json_dumps 2 extraction_protocol))" by simp
qed

text \<open>Writing a document over itself: nothing changes, or the file cannot be opened.\<close>

lemma dump_existing:
  assumes "is_dir w (parent p)" and "nodes w p = Some (File b (json_dumps 2 obj))"
  shows "dump_to_file obj p w = (if b then Inr w else Inl (PermissionError, w))"
proof (cases b)
  case False
  with assms show ?thesis by (simp add: dump_to_file_def open_w_def is_dir_def)
next
  case True
  with assms have "open_w p w = Inr (w\<lparr>nodes := (nodes w)(p \<mapsto> File True []),
      free := free w + length (json_dumps 2 obj)\<rparr>)"
    by (simp add: open_w_def is_dir_def)
  moreover have "(nodes w)(p \<mapsto> File True (json_dumps 2 obj)) = nodes w"
    using assms(2) True by (intro map_upd_triv) simp
  ultimately show ?thesis using True
    by (simp add: dump_to_file_def write_close_def)
qed

lemma run_again:
  assumes "create_rule_assets w = Inr w1"
  shows "nodes (final_world (create_rule_assets w1)) = nodes w1"
    and "creates_writable w \<Longrightarrow> \<exists>w2. create_rule_assets w1 = Inr w2"
proof -
  from run_writes [OF assms] obtain b1 b2 where
    n1: "nodes w1 matrix_path = Some (File b1 (json_dumps 2 dishonesty_matrix))" and
    n2: "nodes w1 protocol_path = Some (File b2 (json_dumps 2 extraction_protocol))" by auto
  from run_is_dir [OF assms] have d: "is_dir w1 assets_dir" .
  then have m: "pathlib_mkdir True True assets_dir w1 = Inr w1" by (rule pathlib_mkdir_existing)
  from run_unicode [OF assms] have u: "stdout_unicode w1" .
  from d n1 have d1: "dump_to_file dishonesty_matrix matrix_path w1
      = (if b1 then Inr w1 else Inl (PermissionError, w1))"
    by (intro dump_existing) (simp_all add: parent_of_files)
  let ?w3 = "w1\<lparr>stdout := stdout w1 @ [created_msg ''dishonesty_matrix.json'']\<rparr>"
  from u have p1: "print (created_msg ''dishonesty_matrix.json'') w1 = Inr ?w3"
    by (rule print_unicode)
  from d have "is_dir ?w3 assets_dir" by (simp add: is_dir_def)
  with n2 have d2: "dump_to_file extraction_protocol protocol_path ?w3
      = (if b2 then Inr ?w3 else Inl (PermissionError, ?w3))"
    by (intro dump_existing) (simp_all add: parent_of_files)
  have run: "create_rule_assets w1 =
      (if b1 then
         (if b2 then Inr (w1\<lparr>stdout := stdout w1 @
                [created_msg ''dishonesty_matrix.json'',
                 created_msg ''extraction_protocol.json'', success_msg]\<rparr>)
          else Inl (PermissionError, ?w3))
       else Inl (PermissionError, w1))"
    by (simp add: create_rule_assets_def m d1 d2 print_unicode u)
  then show "nodes (final_world (create_rule_assets w1)) = nodes w1"
    by (simp add: final_world_def)
  assume "creates_writable w"
  from run_writable [OF assms this] n1 n2 have "b1" "b2" by simp_all
  with run show "\<exists>w2. create_rule_assets w1 = Inr w2" by simp
qed

section \<open>Failing writes\<close>







section \<open>Runs on the concrete filesystems\<close>

lemma run_populated: "\<exists>w'. main populated = Inr w'"
  by (simp add: main_def populated_def project_dirs_def run_defs)

lemma is_dir_populated: "is_dir populated assets_dir"
  by (simp add: populated_def project_dirs_def assets_dir_def is_dir_def)





lemma run_bare_root: "\<exists>w'. main bare_root = Inr w'"
  by (simp add: main_def bare_root_def run_defs)




section \<open>Invariants of the generated data\<close>

text \<open>
  C9. In both documents that a completed run has written, every \<open>weight\<close> field is an
  integer between 1 and 3: the matrix has three of them, one in each category (3, 2, 3),
  and the protocol has three, one in each severity; and the weights of \<open>step3_scoring\<close>
  grow strictly with the severity: \<open>low\<close> is 1, \<open>medium\<close> is 2, \<open>high\<close> is 3.
\<close>

theorem weights_in_range:
  assumes "create_rule_assets w = Inr w'"
  shows "\<exists>d1 d2 l m h.
           read_json w' matrix_path = Some d1 \<and> read_json w' protocol_path = Some d2
           \<and> length (weight_fields d1) = 3 \<and> length (weight_fields d2) = 3
           \<and> list_all weight_in_range (weight_fields d1 @ weight_fields d2)
           \<and> int_at [''contradictions'', ''weight''] d1 = Some 3
           \<and> int_at [''omissions'', ''weight''] d1 = Some 2
           \<and> int_at [''manipulations'', ''weight''] d1 = Some 3
           \<and> int_at [''step3_scoring'', ''low'', ''weight''] d2 = Some l
           \<and> int_at [''step3_scoring'', ''medium'', ''weight''] d2 = Some m
           \<and> int_at [''step3_scoring'', ''high'', ''weight''] d2 = Some h
           \<and> l = 1 \<and> m = 2 \<and> h = 3 \<and> l < m \<and> m < h"
proof -
  have f: "weight_fields dishonesty_matrix = [JInt 3, JInt 2, JInt 3]"
    "weight_fields extraction_protocol = [JInt 1, JInt 2, JInt 3]"
    by (simp_all add: dishonesty_matrix_def extraction_protocol_def)
  have m: "int_at [''contradictions'', ''weight''] dishonesty_matrix = Some 3"
    "int_at [''omissions'', ''weight''] dishonesty_matrix = Some 2"
    "int_at [''manipulations'', ''weight''] dishonesty_matrix = Some 3"
    by (simp_all add: int_at_def dishonesty_matrix_def get_def)
  have p: "int_at [''step3_scoring'', ''low'', ''weight''] extraction_protocol = Some 1"
    "int_at [''step3_scoring'', ''medium'', ''weight''] extraction_protocol = Some 2"
    "int_at [''step3_scoring'', ''high'', ''weight''] extraction_protocol = Some 3"
    by (simp_all add: int_at_def extraction_protocol_def get_def)
  from run_reads [OF assms] f m p show ?thesis by (simp add: weight_in_range_def)
qed

theorem weights_in_range_witness:
  "\<exists>w' d1 d2. create_rule_assets fresh_checkout = Inr w'
      \<and> read_json w' matrix_path = Some d1 \<and> read_json w' protocol_path = Some d2
      \<and> length (weight_fields d1) = 3 \<and> length (weight_fields d2) = 3
      \<and> list_all weight_in_range (weight_fields d1 @ weight_fields d2)
      \<and> int_at [''step3_scoring'', ''high'', ''weight''] d2 = Some 3"
proof -
  from run_fresh_checkout obtain w' where r: "create_rule_assets fresh_checkout = Inr w'" ..
  from weights_in_range [OF r] obtain d1 d2 where
    "read_json w' matrix_path = Some d1" "read_json w' protocol_path = Some d2"
    "length (weight_fields d1) = 3" "length (weight_fields d2) = 3"
    "list_all weight_in_range (weight_fields d1 @ weight_fields d2)"
    "int_at [''step3_scoring'', ''high'', ''weight''] d2 = Some 3"
    by blast
  with r show ?thesis by blast
qed

text \<open>
  C10. In the extraction protocol that a completed run has written, each of the four
  \<open>step2_tags\<close> and each of the three colours of \<open>step3_scoring\<close> starts with \<open>#\<close>, and
  each colour is \<open>#\<close> followed by exactly six hexadecimal digits.
\<close>

theorem tags_and_colors:
  assumes "create_rule_assets w = Inr w'"
  shows "\<exists>d. read_json w' protocol_path = Some d
           \<and> length (tag_values d) = 4 \<and> list_all starts_with_hash (tag_values d)
           \<and> length (color_values d) = 3 \<and> list_all starts_with_hash (color_values d)
           \<and> list_all is_hex_color (color_values d)"
proof -
  have "tag_values extraction_protocol
          = [''#Cybercrime'', ''#Fraud'', ''#Oppression'', ''#FiduciaryBreach'']"
    by (simp add: tag_values_def extraction_protocol_def get_def strings_of_def)
  moreover have "color_values extraction_protocol = [''#4CAF50'', ''#FF9800'', ''#F44336'']"
    by (simp add: color_values_def extraction_protocol_def get_def strings_of_def)
  moreover have "list_all is_hex_color [''#4CAF50'', ''#FF9800'', ''#F44336'']"
    by (simp add: is_hex_color_def is_hex_digit_def hexval_def)
  ultimately show ?thesis
    using run_reads(2) [OF assms] by (simp add: starts_with_hash_def)
qed

theorem tags_and_colors_witness:
  "\<exists>w' d. create_rule_assets fresh_checkout = Inr w' \<and> read_json w' protocol_path = Some d
      \<and> list_all starts_with_hash (tag_values d) \<and> list_all is_hex_color (color_values d)"
proof -
  from run_fresh_checkout obtain w' where r: "create_rule_assets fresh_checkout = Inr w'" ..
  from tags_and_colors [OF r] r show ?thesis by blast
qed

section \<open>Content of the two files\<close>

text \<open>
  C1. After every completed run each of the two files parses as JSON to the record the
  script built, and that record has the shape of the data model: the dishonesty matrix
  has the keys \<open>version\<close>, \<open>contradictions\<close>, \<open>omissions\<close>, \<open>manipulations\<close>, each category
  with an integer \<open>weight\<close> and the string sequences \<open>examples\<close> and \<open>patterns\<close>; the
  extraction protocol has the keys \<open>version\<close>, \<open>step1_keywords\<close>, \<open>step2_tags\<close>,
  \<open>step3_scoring\<close>, the last mapping \<open>low\<close>, \<open>medium\<close>, \<open>high\<close> to a \<open>weight\<close> and a
  \<open>color\<close>. Keys and array elements come back in construction order.
\<close>

theorem files_match_schema:
  assumes "create_rule_assets w = Inr w'"
  shows "\<exists>d1 d2. read_json w' matrix_path = Some d1 \<and> DishonestyMatrix d1
           \<and> d1 = dishonesty_matrix
           \<and> read_json w' protocol_path = Some d2 \<and> ExtractionProtocol d2
           \<and> d2 = extraction_protocol"
  using run_reads [OF assms] schema_matrix schema_protocol by simp

theorem files_match_schema_witness:
  "\<exists>w' d1 d2. create_rule_assets fresh_checkout = Inr w'
      \<and> read_json w' matrix_path = Some d1 \<and> DishonestyMatrix d1
      \<and> read_json w' protocol_path = Some d2 \<and> ExtractionProtocol d2"
proof -
  from run_fresh_checkout obtain w' where r: "create_rule_assets fresh_checkout = Inr w'" ..
  from files_match_schema [OF r] r show ?thesis by blast
qed

text \<open>
  C2. After a completed run of the entry point, \<open>dishonesty_matrix.json\<close> has
  \<open>version\<close> equal to \<open>"1.0"\<close> and \<open>contradictions.weight\<close> equal to 3, and
  \<open>extraction_protocol.json\<close> has \<open>step3_scoring.high.color\<close> equal to \<open>"#F44336"\<close>.
  The witness runs it on a fresh checkout, where the destination is
  \<open>app/src/main/assets/rules\<close>.
\<close>

theorem concrete_scenario:
  assumes "main w = Inr w'"
  shows "\<exists>d1 d2. read_json w' matrix_path = Some d1
           \<and> get_path [''version''] d1 = Some (JStr ''1.0'')
           \<and> get_path [''contradictions'', ''weight''] d1 = Some (JInt 3)
           \<and> read_json w' protocol_path = Some d2
           \<and> get_path [''step3_scoring'', ''high'', ''color''] d2 = Some (JStr ''#F44336'')"
proof -
  have "get_path [''version''] dishonesty_matrix = Some (JStr ''1.0'')"
    "get_path [''contradictions'', ''weight''] dishonesty_matrix = Some (JInt 3)"
    by (simp_all add: dishonesty_matrix_def get_def)
  moreover
  have "get_path [''step3_scoring'', ''high'', ''color''] extraction_protocol
          = Some (JStr ''#F44336'')"
    by (simp add: extraction_protocol_def get_def)
  moreover from assms have "create_rule_assets w = Inr w'" by (simp add: main_def)
  ultimately show ?thesis using run_reads by simp
qed

theorem concrete_scenario_witness:
  "\<exists>w' d1 d2. main fresh_checkout = Inr w' \<and> str_path assets_dir = ''app/src/main/assets/rules''
      \<and> read_json w' matrix_path = Some d1
      \<and> get_path [''version''] d1 = Some (JStr ''1.0'')
      \<and> get_path [''contradictions'', ''weight''] d1 = Some (JInt 3)
      \<and> read_json w' protocol_path = Some d2
      \<and> get_path [''step3_scoring'', ''high'', ''color''] d2 = Some (JStr ''#F44336'')"
proof -
  from run_fresh_checkout obtain w' where r: "main fresh_checkout = Inr w'"
    by (auto simp: main_def)
  have "str_path assets_dir = ''app/src/main/assets/rules''"
    by (simp add: str_path_def assets_dir_def)
  with concrete_scenario [OF r] r show ?thesis by blast
qed

section \<open>Format of the files\<close>

text \<open>
  C5. After a completed run each of the two files is well-formed UTF-8, is indented by
  two spaces per level of nesting (every member, element and closing bracket on a line
  of its own: 36 and 35 lines, starting with the numbers of spaces listed), and parses as
  JSON to the record the script built, members in construction order; and no other path
  has got a different text, so these are all the files the generator writes.
\<close>

theorem file_format:
  assumes "main w = Inr w'"
  shows "\<exists>t1 t2. read_text w' matrix_path = Some t1 \<and> read_text w' protocol_path = Some t2
           \<and> utf8_valid t1 \<and> utf8_valid t2 \<and> indented_by 2 t1 \<and> indented_by 2 t2
           \<and> indent_profile t1 =
               [0, 2, 2, 4, 4, 6, 4, 4, 6, 6, 6, 6, 4, 2, 2, 4, 4, 6, 4, 4, 6, 6, 6, 4, 2,
                2, 4, 4, 6, 4, 4, 6, 6, 4, 2, 0]
           \<and> indent_profile t2 =
               [0, 2, 2, 4, 4, 4, 4, 4, 4, 4, 4, 4, 4, 2, 2, 4, 4, 4, 4, 2, 2, 4, 6, 6, 4,
                4, 6, 6, 4, 4, 6, 6, 4, 2, 0]
           \<and> json_loads t1 = Some dishonesty_matrix
           \<and> json_loads t2 = Some extraction_protocol
           \<and> (\<forall>q. read_text w' q \<noteq> read_text w q \<longrightarrow> q = matrix_path \<or> q = protocol_path)"
proof -
  from assms have r: "create_rule_assets w = Inr w'" by (simp add: main_def)
  then have fw: "final_world (create_rule_assets w) = w'" by (simp add: final_world_def)
  have "\<forall>q. read_text w' q \<noteq> read_text w q \<longrightarrow> q = matrix_path \<or> q = protocol_path"
  proof (intro allI impI, rule ccontr)
    fix q assume d: "read_text w' q \<noteq> read_text w q"
      and "\<not> (q = matrix_path \<or> q = protocol_path)"
    then have "q \<noteq> matrix_path" "q \<noteq> protocol_path" by auto
    from run_frame [OF this, of w] fw
    have "nodes w' q = nodes w q
          \<or> (nodes w q = None \<and> nodes w' q = Some (Dir (creates_writable w)))"
      by auto
    then have "read_text w' q = read_text w q" by (auto simp: read_text_def)
    with d show False by simp
  qed
  with run_texts [OF r] show ?thesis
    by (simp add: utf8_matrix utf8_protocol indented_matrix indented_protocol
        profile_matrix profile_protocol loads_matrix loads_protocol)
qed

theorem file_format_witness:
  "\<exists>w' t1 t2. main fresh_checkout = Inr w'
     \<and> read_text w' matrix_path = Some t1 \<and> read_text w' protocol_path = Some t2
     \<and> utf8_valid t1 \<and> utf8_valid t2 \<and> indented_by 2 t1 \<and> indented_by 2 t2
     \<and> json_loads t1 = Some dishonesty_matrix \<and> json_loads t2 = Some extraction_protocol"
proof -
  from run_fresh_checkout obtain w' where r: "main fresh_checkout = Inr w'"
    by (auto simp: main_def)
  from file_format [OF r] obtain t1 t2 where
    "read_text w' matrix_path = Some t1" "read_text w' protocol_path = Some t2"
    "utf8_valid t1" "utf8_valid t2" "indented_by 2 t1" "indented_by 2 t2"
    "json_loads t1 = Some dishonesty_matrix" "json_loads t2 = Some extraction_protocol"
    by blast
  with r show ?thesis by blast
qed

section \<open>Effects on the filesystem\<close>

text \<open>
  C7. Whatever a run does, and whether it completes or not, every path other than the two
  named files either keeps its node or, having been absent, has become a directory; no
  file but the two named ones is created, overwritten or removed. When the target
  directory already exists, every path other than the two named files is left exactly as
  it was.
\<close>

theorem unrelated_files_untouched:
  "(\<forall>q. q \<noteq> matrix_path \<longrightarrow> q \<noteq> protocol_path \<longrightarrow>
        nodes (final_world (main w)) q = nodes w q
        \<or> (nodes w q = None
           \<and> nodes (final_world (main w)) q = Some (Dir (creates_writable w))))
   \<and> (is_dir w assets_dir \<longrightarrow>
        (\<forall>q. q \<noteq> matrix_path \<longrightarrow> q \<noteq> protocol_path \<longrightarrow>
           nodes (final_world (main w)) q = nodes w q))"
  using run_frame [of _ w] run_frame_existing [of w] unfolding main_def by blast

theorem unrelated_files_untouched_witness:
  "is_dir populated assets_dir
   \<and> nodes populated (assets_dir @ [''custom_rules.json'']) = Some (File True ''{}'')
   \<and> nodes (final_world (main populated)) (assets_dir @ [''custom_rules.json''])
       = Some (File True ''{}'')
   \<and> exit_status (main populated) = 0"
proof -
  have n: "nodes populated (assets_dir @ [''custom_rules.json'']) = Some (File True ''{}'')"
    by (simp add: populated_def project_dirs_def assets_dir_def)
  have d: "assets_dir @ [''custom_rules.json''] \<noteq> matrix_path"
    "assets_dir @ [''custom_rules.json''] \<noteq> protocol_path"
    by (simp_all add: matrix_path_def protocol_path_def)
  from unrelated_files_untouched [of populated] is_dir_populated d
  have "nodes (final_world (main populated)) (assets_dir @ [''custom_rules.json''])
          = nodes populated (assets_dir @ [''custom_rules.json''])"
    by blast
  moreover from run_populated have "exit_status (main populated) = 0"
    by (auto simp: exit_status_def)
  ultimately show ?thesis using n is_dir_populated by simp
qed







section \<open>Determinism\<close>

text \<open>
  C3. After a completed run, the two files hold the encodings of the two literals, in
  which nothing of the environment appears: a completed run from any other state writes
  the same bytes. A second run in the same root leaves the same bytes in both files and
  every node as the first run left it, whether it completes or stops at a file that the
  umask has made read-only; and it completes when the umask leaves what is created
  writable.
\<close>

theorem second_run_identical:
  assumes "main w = Inr w1"
  shows "read_text w1 matrix_path = Some (json_dumps 2 dishonesty_matrix)
         \<and> read_text w1 protocol_path = Some (json_dumps 2 extraction_protocol)
         \<and> read_text (final_world (main w1)) matrix_path
             = Some (json_dumps 2 dishonesty_matrix)
         \<and> read_text (final_world (main w1)) protocol_path
             = Some (json_dumps 2 extraction_protocol)
         \<and> nodes (final_world (main w1)) = nodes w1
         \<and> (creates_writable w \<longrightarrow> (\<exists>w2. main w1 = Inr w2))
         \<and> (\<forall>v v'. main v = Inr v' \<longrightarrow>
                read_text v' matrix_path = read_text w1 matrix_path
                \<and> read_text v' protocol_path = read_text w1 protocol_path)"
proof -
  from assms have r: "create_rule_assets w = Inr w1" by (simp add: main_def)
  note t = run_texts [OF r]
  from run_again(1) [OF r] have n: "nodes (final_world (main w1)) = nodes w1"
    by (simp add: main_def)
  then have "read_text (final_world (main w1)) matrix_path = read_text w1 matrix_path"
    "read_text (final_world (main w1)) protocol_path = read_text w1 protocol_path"
    by (simp_all add: read_text_def)
  moreover have "creates_writable w \<longrightarrow> (\<exists>w2. main w1 = Inr w2)"
    using run_again(2) [OF r] by (simp add: main_def)
  moreover have "\<forall>v v'. main v = Inr v' \<longrightarrow>
          read_text v' matrix_path = read_text w1 matrix_path
          \<and> read_text v' protocol_path = read_text w1 protocol_path"
    using t run_texts by (simp add: main_def)
  ultimately show ?thesis using t n by simp
qed

theorem second_run_identical_witness:
  "\<exists>w1 w2. main fresh_checkout = Inr w1 \<and> main w1 = Inr w2
     \<and> read_text w1 matrix_path \<noteq> None \<and> read_text w2 matrix_path = read_text w1 matrix_path
     \<and> read_text w1 protocol_path \<noteq> None
     \<and> read_text w2 protocol_path = read_text w1 protocol_path"
proof -
  from run_fresh_checkout obtain w1 where r: "main fresh_checkout = Inr w1"
    by (auto simp: main_def)
  have c: "creates_writable fresh_checkout" by (simp add: fresh_checkout_def)
  from second_run_identical [OF r] c obtain w2 where r2: "main w1 = Inr w2" by blast
  from second_run_identical [OF r] have
    "read_text w1 matrix_path = Some (json_dumps 2 dishonesty_matrix)"
    "read_text w1 protocol_path = Some (json_dumps 2 extraction_protocol)"
    "read_text (final_world (main w1)) matrix_path = Some (json_dumps 2 dishonesty_matrix)"
    "read_text (final_world (main w1)) protocol_path = Some (json_dumps 2 extraction_protocol)"
    by blast+
  with r r2 show ?thesis by (auto simp: final_world_Inr)
qed

section \<open>Failures\<close>




end
